theory Spec2Isabelle
  imports Main "HOL-Library.Word"
begin

section \<open>Automatic cat feeder: data model\<close>

text \<open>
  The embedding follows \<^verbatim>\<open>final_proj.ino\<close>.  A \<^verbatim>\<open>byte\<close> is an 8-bit word.  The
  \<^verbatim>\<open>int\<close> of the target has 32 bits: the shared \<^verbatim>\<open>interval\<close> is a 32-bit word read
  through \<open>sint\<close>, so that \<^verbatim>\<open>interval++\<close> and \<^verbatim>\<open>interval--\<close> are the machine's
  two's complement operations.  The servo position stays within \<open>-1..46\<close> and the
  button levels are \<open>0\<close> or \<open>1\<close>, so both are plain integers.  The EEPROM and the
  \<^verbatim>\<open>byte *uid\<close> buffer are maps from an index to the byte stored there.
\<close>

type_synonym byte = "8 word"
type_synonym cint = "32 word"
type_synonym eeprom = "nat \<Rightarrow> byte"
type_synonym uid = "nat \<Rightarrow> byte"

definition MAX_USERS :: nat where
  "MAX_USERS = 10"

definition UID_SIZE :: nat where
  "UID_SIZE = 4"

definition LOW :: int where
  "LOW = 0"

definition HIGH :: int where
  "HIGH = 1"

text \<open>
  Everything a task does besides updating the globals is recorded, in program order, as
  a list of events: the commands to the servo, the task delays (in milliseconds), the
  output on the serial line and on the display, and the writes to the shared flag.
\<close>

datatype event =
    ServoWrite int
  | TaskDelay nat
  | SerialPrint string
  | SerialPrintln string
  | SerialPrintlnInt int
  | LcdPrintInt int
  | LcdPrint string
  | LcdClear
  | SetBeenFed bool

text \<open>
  The remainder \<^verbatim>\<open>myMinute % interval\<close> with \<^verbatim>\<open>interval == 0\<close> is undefined in C and
  traps on the target; the model returns it as an error.
\<close>

datatype error = IntegerDivideByZero

text \<open>The global variables of the sketch that the three tasks read and write.\<close>

record feeder =
  pos :: int
  beenFed :: bool
  interval :: cint
  oldIncrVal :: int
  oldDecrVal :: int

definition initial :: feeder where
  "initial = \<lparr>pos = 0, beenFed = False, interval = 5, oldIncrVal = LOW, oldDecrVal = LOW\<rparr>"

text \<open>
  What the tag reader answers in one cycle: the results of the two calls and the
  buffer \<^verbatim>\<open>rfid.uid.uidByte\<close> after them.
\<close>

record reader =
  PICC_IsNewCardPresent :: bool
  PICC_ReadCardSerial :: bool
  uidByte :: uid

section \<open>Whitelist lookup\<close>

text \<open>
  The inner loop of \<^verbatim>\<open>isRecognized\<close>: \<^verbatim>\<open>match\<close> starts true and the loop leaves with
  false at the first byte of slot \<open>i\<close> that differs from the tag.
\<close>

function match_loop :: "eeprom \<Rightarrow> uid \<Rightarrow> nat \<Rightarrow> nat \<Rightarrow> bool" where
  "match_loop rom u i j =
     (if j < UID_SIZE
      then (if rom (i * UID_SIZE + j) \<noteq> u j then False
            else match_loop rom u i (j + 1))
      else True)"
  by pat_completeness auto
termination
  by (relation "measure (\<lambda>(rom, u, i, j). UID_SIZE - j)") auto

declare match_loop.simps [simp del]

text \<open>The outer loop: the first slot whose inner loop ends with \<^verbatim>\<open>match\<close> true returns.\<close>

function isRecognized_loop :: "eeprom \<Rightarrow> uid \<Rightarrow> nat \<Rightarrow> bool" where
  "isRecognized_loop rom u i =
     (if i < MAX_USERS
      then (if match_loop rom u i 0 then True
            else isRecognized_loop rom u (i + 1))
      else False)"
  by pat_completeness auto
termination
  by (relation "measure (\<lambda>(rom, u, i). MAX_USERS - i)") auto

declare isRecognized_loop.simps [simp del]

definition isRecognized :: "eeprom \<Rightarrow> uid \<Rightarrow> bool" where
  "isRecognized rom u = isRecognized_loop rom u 0"

text \<open>
  The emptiness test of \<^verbatim>\<open>loadUIDsFromEEPROM\<close>: \<^verbatim>\<open>emptySlot\<close> starts true and is
  cleared by every byte of slot \<open>i\<close> that is not the sentinel \<open>0xFF\<close>.
\<close>

function emptySlot_loop :: "eeprom \<Rightarrow> nat \<Rightarrow> nat \<Rightarrow> bool \<Rightarrow> bool" where
  "emptySlot_loop rom i j e =
     (if j < UID_SIZE
      then emptySlot_loop rom i (j + 1) (if rom (i * UID_SIZE + j) \<noteq> 0xFF then False else e)
      else e)"
  by pat_completeness auto
termination
  by (relation "measure (\<lambda>(rom, i, j, e). UID_SIZE - j)") auto

declare emptySlot_loop.simps [simp del]

definition emptySlot :: "eeprom \<Rightarrow> nat \<Rightarrow> bool" where
  "emptySlot rom i = emptySlot_loop rom i 0 True"

text \<open>
  The words of the specification: a slot is populated when some byte differs from the
  sentinel, and it matches a tag when all \<open>UID_SIZE\<close> bytes agree.
\<close>

definition populated :: "eeprom \<Rightarrow> nat \<Rightarrow> bool" where
  "populated rom i = list_ex (\<lambda>j. rom (i * UID_SIZE + j) \<noteq> 0xFF) [0..<UID_SIZE]"

definition slot_matches :: "eeprom \<Rightarrow> uid \<Rightarrow> nat \<Rightarrow> bool" where
  "slot_matches rom u i = list_all (\<lambda>j. rom (i * UID_SIZE + j) = u j) [0..<UID_SIZE]"

section \<open>Clock Monitor\<close>

text \<open>The remainder of C, which truncates towards zero.\<close>

definition c_rem :: "int \<Rightarrow> int \<Rightarrow> int" where
  "c_rem a b = sgn a * (\<bar>a\<bar> mod \<bar>b\<bar>)"

text \<open>
  One pass through the loop of \<^verbatim>\<open>resetFeederTask\<close>, for the minute and second that
  the clock reports.  The remainder is computed before the second is looked at.
\<close>

definition resetFeederTask_cycle :: "byte \<Rightarrow> byte \<Rightarrow> feeder \<Rightarrow> error + (event list \<times> feeder)" where
  "resetFeederTask_cycle myMinute mySec s =
     (if sint (interval s) = 0 then Inl IntegerDivideByZero
      else if c_rem (uint myMinute) (sint (interval s)) = 0 \<and> mySec = 0
      then Inr ([SetBeenFed False, SerialPrintln ''Ready to Feed'', TaskDelay 100],
                s\<lparr>beenFed := False\<rparr>)
      else Inr ([TaskDelay 100], s))"

section \<open>Access and Dispense Controller\<close>

text \<open>
  The two \<^verbatim>\<open>for\<close> loops of the dispense: each returns the value of \<^verbatim>\<open>pos\<close> on exit and
  the events of its iterations.
\<close>

function sweep_up :: "int \<Rightarrow> int \<times> event list" where
  "sweep_up p =
     (if p \<le> 45
      then (case sweep_up (p + 1) of (p', evs) \<Rightarrow> (p', ServoWrite p # TaskDelay 100 # evs))
      else (p, []))"
  by pat_completeness auto
termination
  by (relation "measure (\<lambda>p. nat (46 - p))") auto

declare sweep_up.simps [simp del]

function sweep_down :: "int \<Rightarrow> int \<times> event list" where
  "sweep_down p =
     (if p \<ge> 0
      then (case sweep_down (p - 1) of (p', evs) \<Rightarrow> (p', ServoWrite p # TaskDelay 100 # evs))
      else (p, []))"
  by pat_completeness auto
termination
  by (relation "measure (\<lambda>p. nat (p + 1))") auto

declare sweep_down.simps [simp del]

text \<open>
  One pass through the loop of \<^verbatim>\<open>servoMotorTask\<close>.  The call to
  \<^verbatim>\<open>PICC_ReadCardSerial\<close> is made only when a card is present, and the \<^verbatim>\<open>continue\<close>
  of the first branch skips the delay and the \<^verbatim>\<open>lcd.clear()\<close> at the end of the body.
\<close>

definition servoMotorTask_cycle :: "eeprom \<Rightarrow> reader \<Rightarrow> feeder \<Rightarrow> event list \<times> feeder" where
  "servoMotorTask_cycle rom r s =
     (if \<not> PICC_IsNewCardPresent r \<or> \<not> PICC_ReadCardSerial r then ([TaskDelay 50], s)
      else if isRecognized rom (uidByte r)
      then (if \<not> beenFed s
            then (case sweep_up 0 of (p1, up) \<Rightarrow>
                  case sweep_down 45 of (p2, down) \<Rightarrow>
                    (SerialPrint ''Granted'' # up @ down @ [SetBeenFed True, TaskDelay 1000, LcdClear],
                     s\<lparr>pos := p2, beenFed := True\<rparr>))
            else ([TaskDelay 1000, LcdClear], s))
      else ([TaskDelay 1000, LcdClear], s))"

text \<open>
  The dispense profile in the words of the specification: the positions \<open>0, 1, ..., 45\<close>
  and then \<open>45, 44, ..., 0\<close>, each followed by a delay of 100 ms.
\<close>

definition dispense_profile_spec :: "event list" where
  "dispense_profile_spec =
     concat (map (\<lambda>p. [ServoWrite p, TaskDelay 100]) ([0..45] @ rev [0..45]))"

section \<open>Interval Configurator\<close>

text \<open>The two \<^verbatim>\<open>if\<close> statements of \<^verbatim>\<open>adjustIntervalTask\<close>, one for each button.\<close>

definition incr_button :: "int \<Rightarrow> feeder \<Rightarrow> event list \<times> feeder" where
  "incr_button incrSignal s =
     (if incrSignal \<noteq> oldIncrVal s
      then (if incrSignal = LOW
            then ([SerialPrintlnInt (sint (interval s + 1)), LcdPrintInt (sint (interval s + 1)),
                   LcdPrint '' minutes''],
                  s\<lparr>interval := interval s + 1, oldIncrVal := incrSignal\<rparr>)
            else ([], s\<lparr>oldIncrVal := incrSignal\<rparr>))
      else ([], s))"

definition decr_button :: "int \<Rightarrow> feeder \<Rightarrow> event list \<times> feeder" where
  "decr_button decrSignal s =
     (if decrSignal \<noteq> oldDecrVal s
      then (if decrSignal = LOW
            then ([SerialPrintlnInt (sint (interval s - 1)), LcdPrintInt (sint (interval s - 1)),
                   LcdPrint '' minutes''],
                  s\<lparr>interval := interval s - 1, oldDecrVal := decrSignal\<rparr>)
            else ([], s\<lparr>oldDecrVal := decrSignal\<rparr>))
      else ([], s))"

text \<open>One pass through the loop of \<^verbatim>\<open>adjustIntervalTask\<close>, for the two levels read.\<close>

definition adjustIntervalTask_cycle :: "int \<Rightarrow> int \<Rightarrow> feeder \<Rightarrow> event list \<times> feeder" where
  "adjustIntervalTask_cycle incrSignal decrSignal s =
     (case incr_button incrSignal s of (evs1, s1) \<Rightarrow>
      case decr_button decrSignal s1 of (evs2, s2) \<Rightarrow>
        (evs1 @ evs2 @ [TaskDelay 1000, LcdClear], s2))"

text \<open>A sequence of passes, one for each pair of levels (increment, decrement).\<close>

fun adjust_run :: "(int \<times> int) list \<Rightarrow> feeder \<Rightarrow> event list \<times> feeder" where
  "adjust_run [] s = ([], s)"
| "adjust_run ((i, d) # ps) s =
     (case adjustIntervalTask_cycle i d s of (evs, s1) \<Rightarrow>
      case adjust_run ps s1 of (evs', s2) \<Rightarrow> (evs @ evs', s2))"

text \<open>
  The press edges of the specification: the number of polls of a button whose level is
  the pressed one (\<open>LOW\<close>) and differs from the level seen before.
\<close>

fun press_edges :: "int \<Rightarrow> int list \<Rightarrow> nat" where
  "press_edges prev [] = 0"
| "press_edges prev (l # ls) = (if l \<noteq> prev \<and> l = LOW then 1 else 0) + press_edges l ls"

section \<open>The three tasks together\<close>

text \<open>
  A step of the system is one pass of one task through its loop, on what its device
  answers; the steps of the three tasks interleave in any order.
\<close>

datatype task_input =
    ClockPoll byte byte
  | ReaderPoll reader
  | ButtonPoll int int

definition sys_step :: "eeprom \<Rightarrow> task_input \<Rightarrow> feeder \<Rightarrow> error + (event list \<times> feeder)" where
  "sys_step rom inp s =
     (case inp of
        ClockPoll m sec \<Rightarrow> resetFeederTask_cycle m sec s
      | ReaderPoll r \<Rightarrow> Inr (servoMotorTask_cycle rom r s)
      | ButtonPoll i d \<Rightarrow> Inr (adjustIntervalTask_cycle i d s))"

fun sys_run :: "eeprom \<Rightarrow> task_input list \<Rightarrow> feeder \<Rightarrow> error + (event list \<times> feeder)" where
  "sys_run rom [] s = Inr ([], s)"
| "sys_run rom (inp # inps) s =
     (case sys_step rom inp s of
        Inl e \<Rightarrow> Inl e
      | Inr (evs, s1) \<Rightarrow>
          (case sys_run rom inps s1 of
             Inl e \<Rightarrow> Inl e
           | Inr (evs', s2) \<Rightarrow> Inr (evs @ evs', s2)))"

text \<open>
  A step is at an interval boundary when it is a Clock Monitor step whose reading
  satisfies the test of line 118; a run stays within one feeding window when none of
  its steps is at a boundary.
\<close>

definition at_boundary :: "task_input \<Rightarrow> feeder \<Rightarrow> bool" where
  "at_boundary inp s =
     (case inp of
        ClockPoll m sec \<Rightarrow> c_rem (uint m) (sint (interval s)) = 0 \<and> sec = 0
      | ReaderPoll r \<Rightarrow> False
      | ButtonPoll i d \<Rightarrow> False)"

fun within_window :: "eeprom \<Rightarrow> task_input list \<Rightarrow> feeder \<Rightarrow> bool" where
  "within_window rom [] s = True"
| "within_window rom (inp # inps) s =
     (\<not> at_boundary inp s \<and>
      (case sys_step rom inp s of
         Inl e \<Rightarrow> True
       | Inr (evs, s1) \<Rightarrow> within_window rom inps s1))"

definition is_ServoWrite :: "event \<Rightarrow> bool" where
  "is_ServoWrite e = (case e of ServoWrite p \<Rightarrow> True | _ \<Rightarrow> False)"

text \<open>
  The data of the scenarios of the specification: a whitelist whose first slot holds
  the tag \<open>AA BB CC DD\<close> and whose other slots are empty, a blank EEPROM, and the reader's
  answers for the tags \<open>AA BB CC DD\<close>, \<open>01 02 03 04\<close> and \<open>FF FF FF FF\<close>.
\<close>

definition tag_AABBCCDD :: uid where
  "tag_AABBCCDD j = (if j = 0 then 0xAA else if j = 1 then 0xBB else if j = 2 then 0xCC else 0xDD)"

definition tag_01020304 :: uid where
  "tag_01020304 j = (if j = 0 then 0x01 else if j = 1 then 0x02 else if j = 2 then 0x03 else 0x04)"

definition tag_FFFFFFFF :: uid where
  "tag_FFFFFFFF j = 0xFF"

definition blank_rom :: eeprom where
  "blank_rom a = 0xFF"

definition scenario_rom :: eeprom where
  "scenario_rom a = (if a < 4 then tag_AABBCCDD a else 0xFF)"

definition tag_read :: "uid \<Rightarrow> reader" where
  "tag_read u = \<lparr>PICC_IsNewCardPresent = True, PICC_ReadCardSerial = True, uidByte = u\<rparr>"

section \<open>Lemmas on the whitelist lookup\<close>

lemma match_loop_iff:
  "match_loop rom u i j = list_all (\<lambda>k. rom (i * UID_SIZE + k) = u k) [j..<UID_SIZE]"
proof (induction rom u i j rule: match_loop.induct)
  case (1 rom u i j)
  show ?case
  proof (cases "j < UID_SIZE")
    case True
    then have "[j..<UID_SIZE] = j # [j + 1..<UID_SIZE]"
      by (simp add: upt_conv_Cons)
    with True 1 show ?thesis
      by (subst match_loop.simps) auto
  next
    case False
    then show ?thesis
      by (subst match_loop.simps) simp
  qed
qed

lemma match_loop_slot_matches: "match_loop rom u i 0 = slot_matches rom u i"
  by (simp add: match_loop_iff slot_matches_def)

lemma isRecognized_loop_iff:
  "isRecognized_loop rom u i = list_ex (slot_matches rom u) [i..<MAX_USERS]"
proof (induction rom u i rule: isRecognized_loop.induct)
  case (1 rom u i)
  show ?case
  proof (cases "i < MAX_USERS")
    case True
    then have "[i..<MAX_USERS] = i # [i + 1..<MAX_USERS]"
      by (simp add: upt_conv_Cons)
    with True 1 show ?thesis
      by (subst isRecognized_loop.simps) (auto simp: match_loop_slot_matches)
  next
    case False
    then show ?thesis
      by (subst isRecognized_loop.simps) simp
  qed
qed

lemma isRecognized_iff:
  "isRecognized rom u = list_ex (slot_matches rom u) [0..<MAX_USERS]"
  by (simp add: isRecognized_def isRecognized_loop_iff)

lemma isRecognized_ex:
  "isRecognized rom u \<longleftrightarrow> (\<exists>i<MAX_USERS. \<forall>j<UID_SIZE. rom (i * UID_SIZE + j) = u j)"
  by (simp add: isRecognized_iff slot_matches_def list_ex_iff list_all_iff Bex_def Ball_def)

lemma emptySlot_loop_iff:
  "emptySlot_loop rom i j e = (e \<and> list_all (\<lambda>k. rom (i * UID_SIZE + k) = 0xFF) [j..<UID_SIZE])"
proof (induction rom i j e rule: emptySlot_loop.induct)
  case (1 rom i j e)
  show ?case
  proof (cases "j < UID_SIZE")
    case True
    then have "[j..<UID_SIZE] = j # [j + 1..<UID_SIZE]"
      by (simp add: upt_conv_Cons)
    with True 1 show ?thesis
      by (subst emptySlot_loop.simps) auto
  next
    case False
    then show ?thesis
      by (subst emptySlot_loop.simps) simp
  qed
qed

lemma emptySlot_iff: "emptySlot rom i \<longleftrightarrow> (\<forall>j<UID_SIZE. rom (i * UID_SIZE + j) = 0xFF)"
  by (simp add: emptySlot_def emptySlot_loop_iff list_all_iff Ball_def)

lemma populated_iff: "populated rom i \<longleftrightarrow> \<not> emptySlot rom i"
  by (simp add: populated_def emptySlot_iff list_ex_iff Bex_def)

lemma isRecognized_populated_iff:
  assumes "list_ex (\<lambda>j. u j \<noteq> 0xFF) [0..<UID_SIZE]"
  shows "isRecognized rom u \<longleftrightarrow>
           list_ex (\<lambda>i. populated rom i \<and> slot_matches rom u i) [0..<MAX_USERS]"
proof -
  have "populated rom i" if "slot_matches rom u i" for i
    using that assms by (auto simp: populated_def slot_matches_def list_ex_iff list_all_iff)
  then show ?thesis
    by (auto simp: isRecognized_iff list_ex_iff)
qed

lemma upt_10: "[0..<10] = [0,1,2,3,4,5,6,7,8,9::nat]"
  by (simp add: upt_rec)

lemma upt_4: "[0..<4] = [0,1,2,3::nat]"
  by (simp add: upt_rec)


section \<open>Lemmas on the dispense\<close>

lemma sweep_up_eq:
  "p \<le> 46 \<Longrightarrow> sweep_up p = (46, concat (map (\<lambda>q. [ServoWrite q, TaskDelay 100]) [p..45]))"
proof (induction p rule: sweep_up.induct)
  case (1 p)
  show ?case
  proof (cases "p \<le> 45")
    case True
    then have "[p..45] = p # [p + 1..45]"
      by (simp add: upto_rec1)
    with True 1 show ?thesis
      by (subst sweep_up.simps) simp
  next
    case False
    with 1 have "p = 46" by simp
    then show ?thesis
      by (subst sweep_up.simps) simp
  qed
qed

lemma sweep_down_eq:
  "-1 \<le> p \<Longrightarrow> sweep_down p = (-1, concat (map (\<lambda>q. [ServoWrite q, TaskDelay 100]) (rev [0..p])))"
proof (induction p rule: sweep_down.induct)
  case (1 p)
  show ?case
  proof (cases "0 \<le> p")
    case True
    then have "[0..p] = [0..p - 1] @ [p]"
      by (simp add: upto_rec2)
    with True 1 show ?thesis
      by (subst sweep_down.simps) simp
  next
    case False
    with 1 have "p = -1" by simp
    then show ?thesis
      by (subst sweep_down.simps) simp
  qed
qed

lemma servo_dispense:
  assumes "PICC_IsNewCardPresent r" "PICC_ReadCardSerial r"
    and "isRecognized rom (uidByte r)" and "\<not> beenFed s"
  shows "servoMotorTask_cycle rom r s =
           (SerialPrint ''Granted'' # dispense_profile_spec @ [SetBeenFed True, TaskDelay 1000, LcdClear],
            s\<lparr>pos := -1, beenFed := True\<rparr>)"
  using assms
  by (simp add: servoMotorTask_cycle_def sweep_up_eq sweep_down_eq dispense_profile_spec_def)

lemma servo_no_card:
  "\<not> PICC_IsNewCardPresent r \<or> \<not> PICC_ReadCardSerial r \<Longrightarrow>
     servoMotorTask_cycle rom r s = ([TaskDelay 50], s)"
  by (auto simp: servoMotorTask_cycle_def)

lemma servo_idle:
  "PICC_IsNewCardPresent r \<Longrightarrow> PICC_ReadCardSerial r \<Longrightarrow>
   \<not> isRecognized rom (uidByte r) \<or> beenFed s \<Longrightarrow>
     servoMotorTask_cycle rom r s = ([TaskDelay 1000, LcdClear], s)"
  by (auto simp: servoMotorTask_cycle_def)

lemma servo_cases:
  "servoMotorTask_cycle rom r s = ([TaskDelay 50], s) \<or>
   servoMotorTask_cycle rom r s = ([TaskDelay 1000, LcdClear], s) \<or>
   (PICC_IsNewCardPresent r \<and> PICC_ReadCardSerial r \<and> isRecognized rom (uidByte r) \<and> \<not> beenFed s \<and>
    servoMotorTask_cycle rom r s =
      (SerialPrint ''Granted'' # dispense_profile_spec @ [SetBeenFed True, TaskDelay 1000, LcdClear],
       s\<lparr>pos := -1, beenFed := True\<rparr>))"
  using servo_dispense [of r rom s] servo_no_card [of r rom s] servo_idle [of r rom s]
  by blast


section \<open>Lemmas on the Clock Monitor and the Interval Configurator\<close>

lemma filter_servo_profile:
  "filter is_ServoWrite (concat (map (\<lambda>p. [ServoWrite p, TaskDelay 100]) xs)) = map ServoWrite xs"
  by (induction xs) (simp_all add: is_ServoWrite_def)

lemma profile_servo_writes:
  "filter is_ServoWrite dispense_profile_spec = map ServoWrite ([0..45] @ rev [0..45])"
  unfolding dispense_profile_spec_def by (rule filter_servo_profile)

lemma c_rem_pos: "0 \<le> a \<Longrightarrow> 0 < b \<Longrightarrow> c_rem a b = a mod b"
  by (cases "a = 0") (simp_all add: c_rem_def)

lemma c_rem_zero_iff: "b \<noteq> 0 \<Longrightarrow> c_rem a b = 0 \<longleftrightarrow> b dvd a"
  by (auto simp: c_rem_def sgn_if dvd_eq_mod_eq_0 [symmetric])

lemma reset_cycle_pos:
  assumes "1 \<le> sint (interval s)"
  shows "resetFeederTask_cycle m sec s =
           (if uint m mod sint (interval s) = 0 \<and> sec = 0
            then Inr ([SetBeenFed False, SerialPrintln ''Ready to Feed'', TaskDelay 100], s\<lparr>beenFed := False\<rparr>)
            else Inr ([TaskDelay 100], s))"
  using assms by (simp add: resetFeederTask_cycle_def c_rem_pos)

lemma reset_cycle_zero:
  "sint (interval s) = 0 \<Longrightarrow> resetFeederTask_cycle m sec s = Inl IntegerDivideByZero"
  by (simp add: resetFeederTask_cycle_def)

lemma reset_cycle_Inr:
  assumes "resetFeederTask_cycle m sec s = Inr (evs, s')"
  shows "(c_rem (uint m) (sint (interval s)) = 0 \<and> sec = 0 \<and> s' = s\<lparr>beenFed := False\<rparr>
            \<and> evs = [SetBeenFed False, SerialPrintln ''Ready to Feed'', TaskDelay 100]) \<or>
         (\<not> (c_rem (uint m) (sint (interval s)) = 0 \<and> sec = 0) \<and> s' = s \<and> evs = [TaskDelay 100])"
  using assms by (auto simp: resetFeederTask_cycle_def split: if_splits)

lemma adjust_cycle_state:
  "snd (adjustIntervalTask_cycle i d s) =
     s\<lparr>interval := interval s + (if i \<noteq> oldIncrVal s \<and> i = LOW then 1 else 0)
                               - (if d \<noteq> oldDecrVal s \<and> d = LOW then 1 else 0),
       oldIncrVal := i, oldDecrVal := d\<rparr>"
  by (simp add: adjustIntervalTask_cycle_def incr_button_def decr_button_def split: prod.splits)

lemma adjust_cycle_no_servo:
  "\<not> list_ex is_ServoWrite (fst (adjustIntervalTask_cycle i d s))"
  by (simp add: adjustIntervalTask_cycle_def incr_button_def decr_button_def is_ServoWrite_def split: prod.splits)

lemma adjust_cycle_quiet:
  "i = oldIncrVal s \<Longrightarrow> d = oldDecrVal s \<Longrightarrow>
     adjustIntervalTask_cycle i d s = ([TaskDelay 1000, LcdClear], s)"
  by (simp add: adjustIntervalTask_cycle_def incr_button_def decr_button_def)

lemma adjust_run_interval:
  "interval (snd (adjust_run ps s)) =
     interval s + of_nat (press_edges (oldIncrVal s) (map fst ps))
                - of_nat (press_edges (oldDecrVal s) (map snd ps))"
proof (induction ps arbitrary: s)
  case Nil
  show ?case by simp
next
  case (Cons p ps)
  obtain i d where p: "p = (i, d)" by (cases p)
  let ?s1 = "snd (adjustIntervalTask_cycle i d s)"
  have run: "snd (adjust_run (p # ps) s) = snd (adjust_run ps ?s1)"
    by (simp add: p split: prod.splits)
  have old: "oldIncrVal ?s1 = i" "oldDecrVal ?s1 = d"
    by (simp_all add: adjust_cycle_state)
  have step: "interval ?s1 = interval s + (if i \<noteq> oldIncrVal s \<and> i = LOW then 1 else 0)
                               - (if d \<noteq> oldDecrVal s \<and> d = LOW then 1 else 0)"
    by (simp add: adjust_cycle_state)
  have "interval (snd (adjust_run (p # ps) s)) =
          interval ?s1 + of_nat (press_edges i (map fst ps)) - of_nat (press_edges d (map snd ps))"
    unfolding run using Cons.IH [of ?s1] by (simp only: old)
  also have "\<dots> = interval s + of_nat (press_edges (oldIncrVal s) (map fst (p # ps)))
                          - of_nat (press_edges (oldDecrVal s) (map snd (p # ps)))"
    unfolding step by (simp add: p)
  finally show ?case .
qed

lemma adjust_run_hold:
  "i = oldIncrVal s \<Longrightarrow> d = oldDecrVal s \<Longrightarrow>
     adjust_run (replicate n (i, d)) s = (concat (replicate n [TaskDelay 1000, LcdClear]), s)"
  by (induction n) (simp_all add: adjust_cycle_quiet)

text \<open>
  Read as signed integers, the increment and the decrement of \<^verbatim>\<open>interval\<close> add and
  subtract one everywhere but at the two ends of the range of \<^verbatim>\<open>int\<close>.
\<close>

lemma interval_incr_sint:
  fixes w :: cint
  assumes "sint w < 2 ^ 31 - 1"
  shows "sint (w + 1) = sint w + 1"
proof -
  have lo: "- (2 ^ 31) \<le> sint w"
    using sint_ge [of w] by simp
  have "sint (w + 1) = signed_take_bit 31 (sint w + 1)"
    by (simp add: sint_word_ariths)
  also have "\<dots> = sint w + 1"
    using lo assms by (simp add: signed_take_bit_int_eq_self_iff)
  finally show ?thesis .
qed

lemma interval_decr_sint:
  fixes w :: cint
  assumes "- (2 ^ 31) < sint w"
  shows "sint (w - 1) = sint w - 1"
proof -
  have hi: "sint w < 2 ^ 31"
    using sint_lt [of w] by simp
  have "sint (w - 1) = signed_take_bit 31 (sint w - 1)"
    by (simp add: sint_word_ariths)
  also have "\<dots> = sint w - 1"
    using hi assms by (simp add: signed_take_bit_int_eq_self_iff)
  finally show ?thesis .
qed

lemma adjust_run_Cons_snd:
  "snd (adjust_run ((i, d) # ps) s) = snd (adjust_run ps (snd (adjustIntervalTask_cycle i d s)))"
  by (simp split: prod.splits)

section \<open>Lemmas on the interleaved system\<close>

lemma profile_no_flag: "SetBeenFed b \<notin> set dispense_profile_spec"
  by (auto simp: dispense_profile_spec_def)

lemma servo_step_flag:
  assumes "servoMotorTask_cycle rom r s = (evs, s')"
  shows "(beenFed s \<longrightarrow> s' = s \<and> \<not> list_ex is_ServoWrite evs)"
    and "interval s' = interval s"
    and "SetBeenFed False \<notin> set evs"
  using assms servo_cases [of rom r s]
  by (auto simp: is_ServoWrite_def profile_no_flag)

lemma step_keeps_fed:
  assumes "beenFed s" and "\<not> at_boundary inp s" and "sys_step rom inp s = Inr (evs, s1)"
  shows "beenFed s1 \<and> \<not> list_ex is_ServoWrite evs"
proof (cases inp)
  case (ClockPoll m sec)
  with assms show ?thesis
    by (auto simp: sys_step_def at_boundary_def is_ServoWrite_def dest!: reset_cycle_Inr)
next
  case (ReaderPoll r)
  with assms servo_step_flag(1) [of rom r s evs s1] show ?thesis
    by (simp add: sys_step_def)
next
  case (ButtonPoll i d)
  with assms adjust_cycle_state [of i d s] adjust_cycle_no_servo [of i d s] show ?thesis
    by (auto simp: sys_step_def)
qed

lemma run_keeps_fed:
  "beenFed s \<Longrightarrow> within_window rom inps s \<Longrightarrow> sys_run rom inps s = Inr (evs, s') \<Longrightarrow>
     beenFed s' \<and> \<not> list_ex is_ServoWrite evs"
proof (induction inps arbitrary: s evs)
  case Nil
  then show ?case by simp
next
  case (Cons inp inps)
  from Cons.prems(3) obtain evs1 s1 evs2 where
    step: "sys_step rom inp s = Inr (evs1, s1)" and
    rest: "sys_run rom inps s1 = Inr (evs2, s')" and
    evs: "evs = evs1 @ evs2"
    by (auto split: sum.splits prod.splits)
  from Cons.prems(2) step have nb: "\<not> at_boundary inp s" and win: "within_window rom inps s1"
    by simp_all
  from step_keeps_fed [OF Cons.prems(1) nb step]
  have fed1: "beenFed s1" and quiet1: "\<not> list_ex is_ServoWrite evs1"
    by simp_all
  from Cons.IH [OF fed1 win rest] quiet1 evs show ?case
    by (auto simp: list_ex_iff)
qed

lemma step_flag_change:
  assumes "sys_step rom inp s = Inr (evs, s')"
  shows "(\<not> beenFed s \<and> beenFed s' \<longrightarrow>
            (\<exists>r. inp = ReaderPoll r \<and> PICC_IsNewCardPresent r \<and> PICC_ReadCardSerial r \<and>
                 isRecognized rom (uidByte r)) \<and>
            evs = SerialPrint ''Granted'' # dispense_profile_spec @ [SetBeenFed True, TaskDelay 1000, LcdClear])"
    and "(beenFed s \<and> \<not> beenFed s' \<longrightarrow>
            (\<exists>m sec. inp = ClockPoll m sec \<and> uint m mod sint (interval s) = 0 \<and> sec = 0))"
proof -
  show "(\<not> beenFed s \<and> beenFed s' \<longrightarrow>
            (\<exists>r. inp = ReaderPoll r \<and> PICC_IsNewCardPresent r \<and> PICC_ReadCardSerial r \<and>
                 isRecognized rom (uidByte r)) \<and>
            evs = SerialPrint ''Granted'' # dispense_profile_spec @ [SetBeenFed True, TaskDelay 1000, LcdClear])"
  proof (cases inp)
    case (ClockPoll m sec)
    with assms show ?thesis
      by (auto simp: sys_step_def dest!: reset_cycle_Inr)
  next
    case (ReaderPoll r)
    with assms servo_cases [of rom r s] show ?thesis
      by (auto simp: sys_step_def)
  next
    case (ButtonPoll i d)
    with assms adjust_cycle_state [of i d s] show ?thesis
      by (auto simp: sys_step_def)
  qed
  show "(beenFed s \<and> \<not> beenFed s' \<longrightarrow>
            (\<exists>m sec. inp = ClockPoll m sec \<and> uint m mod sint (interval s) = 0 \<and> sec = 0))"
  proof (cases inp)
    case (ClockPoll m sec)
    from assms ClockPoll have nz: "sint (interval s) \<noteq> 0"
      by (auto simp: sys_step_def resetFeederTask_cycle_def split: if_splits)
    from assms ClockPoll have
      "beenFed s \<and> \<not> beenFed s' \<longrightarrow> c_rem (uint m) (sint (interval s)) = 0 \<and> sec = 0"
      by (auto simp: sys_step_def dest!: reset_cycle_Inr)
    with nz ClockPoll show ?thesis
      by (auto simp: c_rem_zero_iff dvd_eq_mod_eq_0)
  next
    case (ReaderPoll r)
    with assms servo_cases [of rom r s] show ?thesis
      by (auto simp: sys_step_def)
  next
    case (ButtonPoll i d)
    with assms adjust_cycle_state [of i d s] show ?thesis
      by (auto simp: sys_step_def)
  qed
qed

section \<open>The scenarios evaluated\<close>

lemma recognized_scenario [simp]: "isRecognized scenario_rom tag_AABBCCDD"
  by (simp add: isRecognized_iff slot_matches_def MAX_USERS_def UID_SIZE_def upt_10 upt_4
      scenario_rom_def tag_AABBCCDD_def)

lemma unrecognized_scenario [simp]: "\<not> isRecognized scenario_rom tag_01020304"
  by (simp add: isRecognized_iff slot_matches_def MAX_USERS_def UID_SIZE_def upt_10 upt_4
      scenario_rom_def tag_AABBCCDD_def tag_01020304_def)

lemma tag_read_simps [simp]:
  "PICC_IsNewCardPresent (tag_read u)" "PICC_ReadCardSerial (tag_read u)" "uidByte (tag_read u) = u"
  by (simp_all add: tag_read_def)

lemma initial_simps [simp]:
  "pos initial = 0" "\<not> beenFed initial" "interval initial = 5"
  "oldIncrVal initial = LOW" "oldDecrVal initial = LOW"
  by (simp_all add: initial_def)


lemmas eval_defs = sys_step_def servoMotorTask_cycle_def resetFeederTask_cycle_def c_rem_def
  adjustIntervalTask_cycle_def incr_button_def decr_button_def LOW_def HIGH_def initial_def

section \<open>The claims\<close>

text \<open>
  Claim C1 says that \<^verbatim>\<open>isRecognized\<close> returns true exactly when a populated slot
  matches the tag, and that an empty slot never produces a match.  The scan of the code
  compares the tag with every one of the \<open>MAX_USERS\<close> slots and has no test for the
  sentinel (lemma \<open>isRecognized_ex\<close>).  For a tag with a byte other than \<open>0xFF\<close> this is
  what the claim says (lemma \<open>isRecognized_populated_iff\<close>); but on a blank EEPROM, where no
  slot is populated, the tag \<open>FF FF FF FF\<close> is recognized.
\<close>

theorem isRecognized_accepts_sentinel_on_blank:
  "isRecognized blank_rom tag_FFFFFFFF \<and> \<not> list_ex (populated blank_rom) [0..<MAX_USERS]"
  by (simp add: isRecognized_iff slot_matches_def populated_def MAX_USERS_def UID_SIZE_def
      upt_10 upt_4 blank_rom_def tag_FFFFFFFF_def)

text \<open>
  Claim C10: whenever the whitelist has an empty slot (all \<open>UID_SIZE\<close> bytes equal to
  \<open>0xFF\<close>, the test of \<^verbatim>\<open>loadUIDsFromEEPROM\<close>), \<^verbatim>\<open>isRecognized\<close> returns true for a
  tag whose \<open>UID_SIZE\<close> bytes are all \<open>0xFF\<close>.
\<close>

theorem sentinel_uid_recognized:
  assumes "i < MAX_USERS" and "emptySlot rom i" and "\<forall>j<UID_SIZE. u j = 0xFF"
  shows "isRecognized rom u"
  using assms unfolding isRecognized_ex emptySlot_iff by auto

theorem sentinel_uid_recognized_witness:
  "(9::nat) < MAX_USERS \<and> emptySlot scenario_rom 9 \<and> list_all (\<lambda>j. tag_FFFFFFFF j = 0xFF) [0..<UID_SIZE] \<and>
   isRecognized scenario_rom tag_FFFFFFFF"
proof -
  have a: "(9::nat) < MAX_USERS" by (simp add: MAX_USERS_def)
  have b: "emptySlot scenario_rom 9"
    by (simp add: emptySlot_def emptySlot_loop_iff UID_SIZE_def upt_4 scenario_rom_def)
  have c: "\<forall>j<UID_SIZE. tag_FFFFFFFF j = 0xFF" by (simp add: tag_FFFFFFFF_def)
  have d: "list_all (\<lambda>j. tag_FFFFFFFF j = 0xFF) [0..<UID_SIZE]"
    by (simp add: tag_FFFFFFFF_def list_all_iff)
  from sentinel_uid_recognized [OF a b c] a b d show ?thesis
    by blast
qed

text \<open>
  Claim C2: in a cycle of the Access and Dispense Controller that reads a recognized tag
  while \<^verbatim>\<open>beenFed\<close> is false, the servo receives exactly the positions \<open>0, 1, ..., 45\<close>
  and then \<open>45, 44, ..., 0\<close>, each followed by a delay of 100 ms, and \<^verbatim>\<open>beenFed\<close> is set
  to true after the last of them.
\<close>

theorem dispense_runs_profile:
  assumes "PICC_IsNewCardPresent r" and "PICC_ReadCardSerial r"
    and "isRecognized rom (uidByte r)" and "\<not> beenFed s"
  shows "servoMotorTask_cycle rom r s =
           (SerialPrint ''Granted'' # dispense_profile_spec @ [SetBeenFed True, TaskDelay 1000, LcdClear],
            s\<lparr>pos := -1, beenFed := True\<rparr>) \<and>
         filter is_ServoWrite (fst (servoMotorTask_cycle rom r s)) =
           map ServoWrite ([0..45] @ rev [0..45]) \<and>
         beenFed (snd (servoMotorTask_cycle rom r s))"
proof -
  have cycle: "servoMotorTask_cycle rom r s =
      (SerialPrint ''Granted'' # dispense_profile_spec @ [SetBeenFed True, TaskDelay 1000, LcdClear],
       s\<lparr>pos := -1, beenFed := True\<rparr>)"
    using assms by (rule servo_dispense)
  have "filter is_ServoWrite (fst (servoMotorTask_cycle rom r s)) = filter is_ServoWrite dispense_profile_spec"
    unfolding cycle by (simp add: is_ServoWrite_def)
  with cycle show ?thesis
    by (simp add: profile_servo_writes)
qed

theorem dispense_runs_profile_witness:
  "PICC_IsNewCardPresent (tag_read tag_AABBCCDD) \<and> PICC_ReadCardSerial (tag_read tag_AABBCCDD) \<and>
   isRecognized scenario_rom (uidByte (tag_read tag_AABBCCDD)) \<and> \<not> beenFed initial \<and>
   servoMotorTask_cycle scenario_rom (tag_read tag_AABBCCDD) initial =
     (SerialPrint ''Granted'' # dispense_profile_spec @ [SetBeenFed True, TaskDelay 1000, LcdClear],
      initial\<lparr>pos := -1, beenFed := True\<rparr>) \<and>
   beenFed (snd (servoMotorTask_cycle scenario_rom (tag_read tag_AABBCCDD) initial))"
  using dispense_runs_profile [of "tag_read tag_AABBCCDD" scenario_rom initial]
  by simp

text \<open>
  Claim C8: a cycle of the Access and Dispense Controller whose tag is not recognized
  sends no command to the servo and leaves the shared state, \<^verbatim>\<open>beenFed\<close> and
  \<^verbatim>\<open>interval\<close> included, as it was.
\<close>

theorem unrecognized_tag_no_effect:
  assumes "PICC_IsNewCardPresent r" and "PICC_ReadCardSerial r"
    and "\<not> isRecognized rom (uidByte r)"
  shows "servoMotorTask_cycle rom r s = ([TaskDelay 1000, LcdClear], s) \<and>
         \<not> list_ex is_ServoWrite (fst (servoMotorTask_cycle rom r s)) \<and>
         beenFed (snd (servoMotorTask_cycle rom r s)) = beenFed s \<and>
         interval (snd (servoMotorTask_cycle rom r s)) = interval s"
  using assms by (simp add: servo_idle is_ServoWrite_def)

theorem unrecognized_tag_no_effect_witness:
  "PICC_IsNewCardPresent (tag_read tag_01020304) \<and> PICC_ReadCardSerial (tag_read tag_01020304) \<and>
   \<not> isRecognized scenario_rom (uidByte (tag_read tag_01020304)) \<and>
   servoMotorTask_cycle scenario_rom (tag_read tag_01020304) initial = ([TaskDelay 1000, LcdClear], initial)"
  using unrecognized_tag_no_effect [of "tag_read tag_01020304" scenario_rom initial]
  by simp

text \<open>
  Claim C9: a cycle in which a tag is present but its serial number cannot be read does
  what a cycle without a tag does: it waits 50 ms and changes nothing.  The result does
  not depend on the whitelist or on the buffer, and it carries no output on the serial
  line or the display.
\<close>

theorem failed_serial_read_is_no_tag:
  assumes "PICC_IsNewCardPresent r" and "\<not> PICC_ReadCardSerial r"
    and "\<not> PICC_IsNewCardPresent r'"
  shows "servoMotorTask_cycle rom r s = ([TaskDelay 50], s) \<and>
         servoMotorTask_cycle rom r s = servoMotorTask_cycle rom' r' s"
  using assms by (simp add: servo_no_card)

theorem failed_serial_read_is_no_tag_witness:
  "PICC_IsNewCardPresent ((tag_read tag_AABBCCDD)\<lparr>PICC_ReadCardSerial := False\<rparr>) \<and>
   \<not> PICC_ReadCardSerial ((tag_read tag_AABBCCDD)\<lparr>PICC_ReadCardSerial := False\<rparr>) \<and>
   \<not> PICC_IsNewCardPresent ((tag_read tag_01020304)\<lparr>PICC_IsNewCardPresent := False\<rparr>) \<and>
   servoMotorTask_cycle scenario_rom ((tag_read tag_AABBCCDD)\<lparr>PICC_ReadCardSerial := False\<rparr>) initial =
     ([TaskDelay 50], initial) \<and>
   servoMotorTask_cycle scenario_rom ((tag_read tag_AABBCCDD)\<lparr>PICC_ReadCardSerial := False\<rparr>) initial =
     servoMotorTask_cycle blank_rom ((tag_read tag_01020304)\<lparr>PICC_IsNewCardPresent := False\<rparr>) initial"
proof -
  let ?r = "(tag_read tag_AABBCCDD)\<lparr>PICC_ReadCardSerial := False\<rparr>"
  let ?r' = "(tag_read tag_01020304)\<lparr>PICC_IsNewCardPresent := False\<rparr>"
  have a: "PICC_IsNewCardPresent ?r" and b: "\<not> PICC_ReadCardSerial ?r"
    and c: "\<not> PICC_IsNewCardPresent ?r'"
    by simp_all
  from failed_serial_read_is_no_tag [OF a b c, of scenario_rom initial blank_rom] a b c
  show ?thesis by blast
qed

text \<open>
  Claim C3: once \<^verbatim>\<open>beenFed\<close> is true, every run of the three tasks that stays within
  the feeding window (no Clock Monitor step at an interval boundary) sends no command to
  the servo, whatever tags are read, and ends with \<^verbatim>\<open>beenFed\<close> still true.
\<close>

theorem no_second_dispense_within_window:
  assumes "beenFed s" and "within_window rom inps s" and "sys_run rom inps s = Inr (evs, s')"
  shows "beenFed s' \<and> \<not> list_ex is_ServoWrite evs"
  using assms by (rule run_keeps_fed)

theorem no_second_dispense_within_window_witness:
  "beenFed (initial\<lparr>pos := -1, beenFed := True\<rparr>) \<and>
   within_window scenario_rom
     [ReaderPoll (tag_read tag_AABBCCDD), ClockPoll 7 0, ButtonPoll HIGH HIGH,
      ReaderPoll (tag_read tag_AABBCCDD)]
     (initial\<lparr>pos := -1, beenFed := True\<rparr>) \<and>
   sys_run scenario_rom
     [ReaderPoll (tag_read tag_AABBCCDD), ClockPoll 7 0, ButtonPoll HIGH HIGH,
      ReaderPoll (tag_read tag_AABBCCDD)]
     (initial\<lparr>pos := -1, beenFed := True\<rparr>) =
   Inr ([TaskDelay 1000, LcdClear, TaskDelay 100, TaskDelay 1000, LcdClear, TaskDelay 1000, LcdClear],
        initial\<lparr>pos := -1, beenFed := True, oldIncrVal := HIGH, oldDecrVal := HIGH\<rparr>) \<and>
   beenFed (initial\<lparr>pos := -1, beenFed := True, oldIncrVal := HIGH, oldDecrVal := HIGH\<rparr>) \<and>
   \<not> list_ex is_ServoWrite
     [TaskDelay 1000, LcdClear, TaskDelay 100, TaskDelay 1000, LcdClear, TaskDelay 1000, LcdClear]"
proof -
  let ?s = "initial\<lparr>pos := -1, beenFed := True\<rparr>"
  let ?inps = "[ReaderPoll (tag_read tag_AABBCCDD), ClockPoll 7 0, ButtonPoll HIGH HIGH,
      ReaderPoll (tag_read tag_AABBCCDD)]"
  have a: "beenFed ?s" by simp
  have b: "within_window scenario_rom ?inps ?s"
    by (simp add: eval_defs at_boundary_def)
  have c: "sys_run scenario_rom ?inps ?s =
     Inr ([TaskDelay 1000, LcdClear, TaskDelay 100, TaskDelay 1000, LcdClear, TaskDelay 1000, LcdClear],
        initial\<lparr>pos := -1, beenFed := True, oldIncrVal := HIGH, oldDecrVal := HIGH\<rparr>)"
    by (simp add: eval_defs)
  from no_second_dispense_within_window [OF a b c] a b c show ?thesis
    by blast
qed

text \<open>
  Claim C4: for an interval of at least 1, a cycle of the Clock Monitor sets
  \<^verbatim>\<open>beenFed\<close> to false exactly when \<open>minute mod interval = 0\<close> and \<open>second = 0\<close>, and
  changes nothing otherwise; with the interval 5, the reading 10:00 clears the flag.
\<close>

theorem clock_monitor_resets_at_boundary:
  assumes "1 \<le> sint (interval s)"
  shows "resetFeederTask_cycle m sec s =
           (if uint m mod sint (interval s) = 0 \<and> sec = 0
            then Inr ([SetBeenFed False, SerialPrintln ''Ready to Feed'', TaskDelay 100],
                      s\<lparr>beenFed := False\<rparr>)
            else Inr ([TaskDelay 100], s))"
  using assms by (rule reset_cycle_pos)

theorem clock_monitor_resets_at_boundary_witness:
  "1 \<le> sint (interval (initial\<lparr>beenFed := True\<rparr>)) \<and>
   resetFeederTask_cycle 10 0 (initial\<lparr>beenFed := True\<rparr>) =
     Inr ([SetBeenFed False, SerialPrintln ''Ready to Feed'', TaskDelay 100], initial) \<and>
   resetFeederTask_cycle 11 0 (initial\<lparr>beenFed := True\<rparr>) =
     Inr ([TaskDelay 100], initial\<lparr>beenFed := True\<rparr>) \<and>
   resetFeederTask_cycle 10 1 (initial\<lparr>beenFed := True\<rparr>) =
     Inr ([TaskDelay 100], initial\<lparr>beenFed := True\<rparr>)"
proof -
  let ?s = "initial\<lparr>beenFed := True\<rparr>"
  have h: "1 \<le> sint (interval ?s)" by simp
  have i: "sint (interval ?s) = 5" by simp
  have e: "?s\<lparr>beenFed := False\<rparr> = initial" by (simp add: initial_def)
  from clock_monitor_resets_at_boundary [OF h, of 10 0]
       clock_monitor_resets_at_boundary [OF h, of 11 0]
       clock_monitor_resets_at_boundary [OF h, of 10 1] h
  show ?thesis unfolding i e by simp
qed

text \<open>
  Claim C6: over any sequence of cycles of the Interval Configurator, \<^verbatim>\<open>interval\<close>
  changes by \<open>+1\<close> for each press edge of the increment button and by \<open>-1\<close> for each
  press edge of the decrement button, in the arithmetic of the 32-bit \<^verbatim>\<open>int\<close> (lemmas
  \<open>interval_incr_sint\<close> and \<open>interval_decr_sint\<close> read it as a signed integer).  In
  particular a press of one button, held for any number \<open>n\<close> of further polls while the
  other button keeps its level, changes \<^verbatim>\<open>interval\<close> by one in total and nothing else
  but the stored level of that button.
\<close>

theorem adjust_once_per_press_edge:
  "interval (snd (adjust_run ps s)) =
     interval s + of_nat (press_edges (oldIncrVal s) (map fst ps))
                - of_nat (press_edges (oldDecrVal s) (map snd ps)) \<and>
   (oldIncrVal s \<noteq> LOW \<and> d = oldDecrVal s \<longrightarrow>
      snd (adjust_run ((LOW, d) # replicate n (LOW, d)) s) =
        s\<lparr>interval := interval s + 1, oldIncrVal := LOW\<rparr>) \<and>
   (oldDecrVal s \<noteq> LOW \<and> i = oldIncrVal s \<longrightarrow>
      snd (adjust_run ((i, LOW) # replicate n (i, LOW)) s) =
        s\<lparr>interval := interval s - 1, oldDecrVal := LOW\<rparr>)"
proof (intro conjI impI)
  show "interval (snd (adjust_run ps s)) =
     interval s + of_nat (press_edges (oldIncrVal s) (map fst ps))
                - of_nat (press_edges (oldDecrVal s) (map snd ps))"
    by (rule adjust_run_interval)
next
  assume h: "oldIncrVal s \<noteq> LOW \<and> d = oldDecrVal s"
  let ?s1 = "s\<lparr>interval := interval s + 1, oldIncrVal := LOW\<rparr>"
  from h have press: "snd (adjustIntervalTask_cycle LOW d s) = ?s1"
    by (simp add: adjust_cycle_state)
  from h have hold: "adjust_run (replicate n (LOW, d)) ?s1 =
      (concat (replicate n [TaskDelay 1000, LcdClear]), ?s1)"
    by (intro adjust_run_hold) simp_all
  show "snd (adjust_run ((LOW, d) # replicate n (LOW, d)) s) = ?s1"
    by (simp only: adjust_run_Cons_snd press hold snd_conv)
next
  assume h: "oldDecrVal s \<noteq> LOW \<and> i = oldIncrVal s"
  let ?s1 = "s\<lparr>interval := interval s - 1, oldDecrVal := LOW\<rparr>"
  from h have press: "snd (adjustIntervalTask_cycle i LOW s) = ?s1"
    by (simp add: adjust_cycle_state)
  from h have hold: "adjust_run (replicate n (i, LOW)) ?s1 =
      (concat (replicate n [TaskDelay 1000, LcdClear]), ?s1)"
    by (intro adjust_run_hold) simp_all
  show "snd (adjust_run ((i, LOW) # replicate n (i, LOW)) s) = ?s1"
    by (simp only: adjust_run_Cons_snd press hold snd_conv)
qed

theorem adjust_once_per_press_edge_witness:
  "oldIncrVal (initial\<lparr>oldIncrVal := HIGH, oldDecrVal := HIGH\<rparr>) \<noteq> LOW \<and>
   HIGH = oldDecrVal (initial\<lparr>oldIncrVal := HIGH, oldDecrVal := HIGH\<rparr>) \<and>
   snd (adjust_run ((LOW, HIGH) # replicate 5 (LOW, HIGH))
          (initial\<lparr>oldIncrVal := HIGH, oldDecrVal := HIGH\<rparr>)) =
     initial\<lparr>interval := 6, oldIncrVal := LOW, oldDecrVal := HIGH\<rparr> \<and>
   oldDecrVal (initial\<lparr>oldIncrVal := HIGH, oldDecrVal := HIGH\<rparr>) \<noteq> LOW \<and>
   HIGH = oldIncrVal (initial\<lparr>oldIncrVal := HIGH, oldDecrVal := HIGH\<rparr>) \<and>
   snd (adjust_run ((HIGH, LOW) # replicate 5 (HIGH, LOW))
          (initial\<lparr>oldIncrVal := HIGH, oldDecrVal := HIGH\<rparr>)) =
     initial\<lparr>interval := 4, oldIncrVal := HIGH, oldDecrVal := LOW\<rparr>"
proof -
  let ?s = "initial\<lparr>oldIncrVal := HIGH, oldDecrVal := HIGH\<rparr>"
  have a: "oldIncrVal ?s \<noteq> LOW \<and> HIGH = oldDecrVal ?s"
    by (simp add: LOW_def HIGH_def)
  have b: "oldDecrVal ?s \<noteq> LOW \<and> HIGH = oldIncrVal ?s"
    by (simp add: LOW_def HIGH_def)
  have c: "?s\<lparr>interval := interval ?s + 1, oldIncrVal := LOW\<rparr> =
             initial\<lparr>interval := 6, oldIncrVal := LOW, oldDecrVal := HIGH\<rparr>"
    by (simp add: initial_def)
  have d: "?s\<lparr>interval := interval ?s - 1, oldDecrVal := LOW\<rparr> =
             initial\<lparr>interval := 4, oldIncrVal := HIGH, oldDecrVal := LOW\<rparr>"
    by (simp add: initial_def)
  from adjust_once_per_press_edge [of "[]" ?s HIGH 5 HIGH] a b
  show ?thesis unfolding c d by blast
qed

text \<open>
  Claim C7: no lower bound is enforced on \<^verbatim>\<open>interval\<close>.  From the initial state, five
  presses of the decrement button bring it to 0, and there every cycle of the Clock
  Monitor computes the remainder by zero; a sixth press brings it to \<open>-1\<close>.
\<close>

theorem interval_decrements_to_zero_and_below:
  "interval (snd (adjust_run (concat (replicate 5 [(HIGH, HIGH), (HIGH, LOW)])) initial)) = 0 \<and>
   resetFeederTask_cycle m sec
     (snd (adjust_run (concat (replicate 5 [(HIGH, HIGH), (HIGH, LOW)])) initial)) =
     Inl IntegerDivideByZero \<and>
   sys_run rom (concat (replicate 5 [ButtonPoll HIGH HIGH, ButtonPoll HIGH LOW]) @ [ClockPoll m sec])
     initial = Inl IntegerDivideByZero \<and>
   sint (interval (snd (adjust_run (concat (replicate 6 [(HIGH, HIGH), (HIGH, LOW)])) initial))) = -1"
proof -
  let ?ps = "concat (replicate 5 [(HIGH, HIGH), (HIGH, LOW)])"
  have five: "interval (snd (adjust_run ?ps initial)) = 0"
    unfolding adjust_run_interval by (simp add: numeral_eq_Suc LOW_def HIGH_def)
  then have trap: "resetFeederTask_cycle m sec (snd (adjust_run ?ps initial)) = Inl IntegerDivideByZero"
    by (simp add: resetFeederTask_cycle_def)
  have run: "sys_run rom (concat (replicate 5 [ButtonPoll HIGH HIGH, ButtonPoll HIGH LOW]) @ [ClockPoll m sec])
     initial = Inl IntegerDivideByZero"
    by (simp add: numeral_eq_Suc sys_step_def resetFeederTask_cycle_def adjustIntervalTask_cycle_def
        incr_button_def decr_button_def LOW_def HIGH_def initial_def)
  have six: "sint (interval (snd (adjust_run (concat (replicate 6 [(HIGH, HIGH), (HIGH, LOW)])) initial))) = -1"
    unfolding adjust_run_interval by (simp add: numeral_eq_Suc LOW_def HIGH_def)
  from five trap run six show ?thesis by blast
qed

theorem interval_decrements_to_zero_and_below_witness:
  "interval (snd (adjust_run (concat (replicate 5 [(HIGH, HIGH), (HIGH, LOW)])) initial)) = 0 \<and>
   resetFeederTask_cycle 10 0
     (snd (adjust_run (concat (replicate 5 [(HIGH, HIGH), (HIGH, LOW)])) initial)) =
     Inl IntegerDivideByZero \<and>
   sys_run blank_rom (concat (replicate 5 [ButtonPoll HIGH HIGH, ButtonPoll HIGH LOW]) @ [ClockPoll 10 0])
     initial = Inl IntegerDivideByZero"
  using interval_decrements_to_zero_and_below [of 10 0 blank_rom] by blast

text \<open>
  Claim C5: in every state that a run of the three tasks reaches from the initial state,
  a step changes \<^verbatim>\<open>beenFed\<close> from false to true only when it is a cycle of the Access
  and Dispense Controller on a recognized tag, whose events are the complete dispense
  profile followed by the write of the flag; and it changes \<^verbatim>\<open>beenFed\<close> from true to
  false only when it is a Clock Monitor cycle with \<open>minute mod interval = 0\<close> and
  \<open>second = 0\<close>.
\<close>

theorem beenFed_changes_only_by_dispense_or_boundary:
  assumes "sys_run rom inps initial = Inr (evs0, s)"
    and "sys_step rom inp s = Inr (evs, s')"
  shows "(\<not> beenFed s \<and> beenFed s' \<longrightarrow>
            (\<exists>r. inp = ReaderPoll r \<and> PICC_IsNewCardPresent r \<and> PICC_ReadCardSerial r \<and>
                 isRecognized rom (uidByte r)) \<and>
            evs = SerialPrint ''Granted'' # dispense_profile_spec @
                    [SetBeenFed True, TaskDelay 1000, LcdClear]) \<and>
         (beenFed s \<and> \<not> beenFed s' \<longrightarrow>
            (\<exists>m sec. inp = ClockPoll m sec \<and> uint m mod sint (interval s) = 0 \<and> sec = 0))"
  using step_flag_change [OF assms(2)] by blast

theorem beenFed_changes_only_by_dispense_or_boundary_witness:
  "sys_run scenario_rom [] initial = Inr ([], initial) \<and>
   sys_step scenario_rom (ReaderPoll (tag_read tag_AABBCCDD)) initial =
     Inr (SerialPrint ''Granted'' # dispense_profile_spec @ [SetBeenFed True, TaskDelay 1000, LcdClear],
          initial\<lparr>pos := -1, beenFed := True\<rparr>) \<and>
   \<not> beenFed initial \<and> beenFed (initial\<lparr>pos := -1, beenFed := True\<rparr>) \<and>
   (\<exists>r. ReaderPoll (tag_read tag_AABBCCDD) = ReaderPoll r \<and> PICC_IsNewCardPresent r \<and>
        PICC_ReadCardSerial r \<and> isRecognized scenario_rom (uidByte r)) \<and>
   sys_run scenario_rom [ReaderPoll (tag_read tag_AABBCCDD)] initial =
     Inr (SerialPrint ''Granted'' # dispense_profile_spec @ [SetBeenFed True, TaskDelay 1000, LcdClear],
          initial\<lparr>pos := -1, beenFed := True\<rparr>) \<and>
   sys_step scenario_rom (ClockPoll 10 0) (initial\<lparr>pos := -1, beenFed := True\<rparr>) =
     Inr ([SetBeenFed False, SerialPrintln ''Ready to Feed'', TaskDelay 100], initial\<lparr>pos := -1\<rparr>) \<and>
   \<not> beenFed (initial\<lparr>pos := -1\<rparr>) \<and>
   (\<exists>m sec. ClockPoll 10 0 = ClockPoll m sec \<and>
      uint m mod sint (interval (initial\<lparr>pos := -1, beenFed := True\<rparr>)) = 0 \<and> sec = 0)"
proof -
  let ?s' = "initial\<lparr>pos := -1, beenFed := True\<rparr>"
  let ?evs = "SerialPrint ''Granted'' # dispense_profile_spec @ [SetBeenFed True, TaskDelay 1000, LcdClear]"
  have a: "sys_run scenario_rom [] initial = Inr ([], initial)" by simp
  have b: "sys_step scenario_rom (ReaderPoll (tag_read tag_AABBCCDD)) initial = Inr (?evs, ?s')"
    by (simp add: sys_step_def servo_dispense)
  have c: "\<not> beenFed initial \<and> beenFed ?s'" by simp
  have d: "sys_run scenario_rom [ReaderPoll (tag_read tag_AABBCCDD)] initial = Inr (?evs, ?s')"
    by (simp add: b)
  have e: "sys_step scenario_rom (ClockPoll 10 0) ?s' =
     Inr ([SetBeenFed False, SerialPrintln ''Ready to Feed'', TaskDelay 100], initial\<lparr>pos := -1\<rparr>)"
    by (simp add: eval_defs)
  have f: "\<not> beenFed (initial\<lparr>pos := -1\<rparr>)" by simp
  from beenFed_changes_only_by_dispense_or_boundary [OF a b]
       beenFed_changes_only_by_dispense_or_boundary [OF d e] a b c d e f
  show ?thesis
    by blast
qed

end
